theory Spec2Isabelle
  imports Complex_Main
begin

section \<open>Python lists and strings\<close>

text \<open>
  The program is a Streamlit script: every widget call returns the value the user has
  entered, and \<^verbatim>\<open>st.stop()\<close> ends the run. A widget value is an argument of the model,
  a run that is stopped after \<^verbatim>\<open>st.warning\<close> or that raises is the \<open>Inl\<close> branch of a sum.
  A Python \<^verbatim>\<open>str\<close> is a \<^typ>\<open>string\<close>; a \<^typ>\<open>char\<close> stands for a code point below 256.
\<close>

datatype error =
    ShapeMismatch
  | LabelCountMismatch nat nat
  | MissingLabels
  | IndexError
  | ValueError
  | KeyError
  | AttributeError

text \<open>\<^verbatim>\<open>xs[i]\<close>: a negative index counts from the end, an index out of range raises.\<close>

definition py_index :: "'a list \<Rightarrow> int \<Rightarrow> error + 'a" where
  "py_index xs i =
     (if 0 \<le> i \<and> i < int (length xs) then Inr (xs ! nat i)
      else if i < 0 \<and> - int (length xs) \<le> i then Inr (xs ! nat (int (length xs) + i))
      else Inl IndexError)"

text \<open>\<^verbatim>\<open>xs[a:b]\<close> and \<^verbatim>\<open>xs[a:]\<close>: negative bounds count from the end, then both are clipped.\<close>

definition slice_bound :: "nat \<Rightarrow> int \<Rightarrow> nat" where
  "slice_bound n i = (if i < 0 then nat (max (int n + i) 0) else min (nat i) n)"

definition py_slice :: "'a list \<Rightarrow> int \<Rightarrow> int \<Rightarrow> 'a list" where
  "py_slice xs a b = drop (slice_bound (length xs) a) (take (slice_bound (length xs) b) xs)"

definition py_slice_from :: "'a list \<Rightarrow> int \<Rightarrow> 'a list" where
  "py_slice_from xs a = drop (slice_bound (length xs) a) xs"

text \<open>\<^verbatim>\<open>s.split(",")\<close>: the pieces between the separators; never the empty list.\<close>

fun split_on :: "char \<Rightarrow> string \<Rightarrow> string list" where
  "split_on c [] = [[]]"
| "split_on c (x # xs) =
     (if x = c then [] # split_on c xs
      else (case split_on c xs of [] \<Rightarrow> [[x]] | w # ws \<Rightarrow> (x # w) # ws))"

text \<open>\<^verbatim>\<open>sep.join(ws)\<close>, the inverse of splitting.\<close>

fun join :: "string \<Rightarrow> string list \<Rightarrow> string" where
  "join sep [] = []"
| "join sep [w] = w"
| "join sep (w # v # ws) = w @ sep @ join sep (v # ws)"

text \<open>\<^verbatim>\<open>str.isspace\<close> on the code points below 256, and \<^verbatim>\<open>s.strip()\<close>.\<close>

definition is_space :: "char \<Rightarrow> bool" where
  "is_space c =
     (let k = (of_char c :: nat)
      in (9 \<le> k \<and> k \<le> 13) \<or> (28 \<le> k \<and> k \<le> 32) \<or> k = 133 \<or> k = 160)"

definition strip :: "string \<Rightarrow> string" where
  "strip s = rev (dropWhile is_space (rev (dropWhile is_space s)))"

section \<open>Step 2: resolving the header\<close>

text \<open>
  Lines 107 to 117, the branch taken when the box "use the column names found in the
  data" is ticked. \<open>h\<close> is the value of the number input, before the \<^verbatim>\<open>- 1\<close>.
\<close>

definition use_headers :: "string list list \<Rightarrow> int \<Rightarrow> error + (string list \<times> string list list)" where
  "use_headers rows h =
     (let which_header = h - 1
      in case py_index rows which_header of
           Inl e \<Rightarrow> Inl e
         | Inr headers \<Rightarrow>
             (let rows' = py_slice_from rows (which_header + 1)
              in if \<not> list_all (\<lambda>row. length headers = length row) rows'
                 then Inl ShapeMismatch
                 else Inr (headers, rows')))"

text \<open>
  Lines 118 to 137, the other branch. \<open>f\<close> is the value of the number input and \<open>L\<close> the
  text typed into the field of column names; the empty text is falsy.
\<close>

definition custom_headers :: "string list list \<Rightarrow> int \<Rightarrow> string \<Rightarrow> error + (string list \<times> string list list)" where
  "custom_headers rows f L =
     (let which_first_row = f - 1
      in case py_index rows which_first_row of
           Inl e \<Rightarrow> Inl e
         | Inr first_row \<Rightarrow>
             (let count_cols_needed = length first_row
              in if L \<noteq> []
                 then (let headers = map strip (split_on CHR '','' L)
                       in if length headers \<noteq> count_cols_needed
                          then Inl (LabelCountMismatch (length headers) count_cols_needed)
                          else Inr (headers, py_slice_from rows which_first_row))
                 else Inl MissingLabels))"

section \<open>Numbers and their text\<close>

text \<open>
  Decimal digits. \<open>show_nat\<close> is \<^verbatim>\<open>str(n)\<close> for \<open>n \<ge> 0\<close>, \<open>nat_of_digits\<close> reads a digit
  string back.
\<close>

definition is_digit :: "char \<Rightarrow> bool" where
  "is_digit c = (c \<in> set ''0123456789'')"

definition digit_char :: "nat \<Rightarrow> char" where
  "digit_char d = ''0123456789'' ! d"

definition digit_val :: "char \<Rightarrow> nat" where
  "digit_val c = of_char c - 48"

fun show_nat :: "nat \<Rightarrow> string" where
  "show_nat n = (if n < 10 then [digit_char n] else show_nat (n div 10) @ [digit_char (n mod 10)])"

declare show_nat.simps [simp del]

definition show_int :: "int \<Rightarrow> string" where
  "show_int i = (if i < 0 then CHR ''-'' # show_nat (nat (- i)) else show_nat (nat i))"

definition nat_of_digits :: "string \<Rightarrow> nat" where
  "nat_of_digits ds = foldl (\<lambda>a c. 10 * a + digit_val c) 0 ds"

text \<open>
  A cell of a DataFrame. Scraped cells are text. A float is kept as the decimal it
  denotes: \<open>FloatV m k\<close> is \<open>m / 10 ^ k\<close>; the rounding of a decimal to the nearest
  binary64 value is not modelled. \<open>NaN\<close> is the float null, \<open>NA\<close> is \<^verbatim>\<open>pd.NA\<close>, \<open>NoneV\<close> is
  \<^verbatim>\<open>None\<close>.
\<close>

datatype cell = Text string | IntV int | FloatV int nat | NaN | NA | NoneV

text \<open>
  \<^verbatim>\<open>repr\<close> of a float, which is also what \<^verbatim>\<open>astype(str)\<close> writes for a float64 cell: the
  digits without trailing zeros, and the position \<open>decpt\<close> of the decimal point relative
  to them (the value is \<open>0.d1d2... * 10 ^ decpt\<close>); positional notation unless
  \<open>decpt > 16\<close> or \<open>decpt \<le> -4\<close>, where the exponent form is used, with an exponent of at
  least two digits. The digits are those of the decimal, which are the shortest digits
  that read back to the same binary64 value for a decimal of up to 15 significant
  digits.
\<close>

fun trailing_zeros :: "nat \<Rightarrow> nat" where
  "trailing_zeros a = (if a = 0 \<or> a mod 10 \<noteq> 0 then 0 else Suc (trailing_zeros (a div 10)))"

declare trailing_zeros.simps [simp del]

definition repr_digits :: "int \<Rightarrow> string" where
  "repr_digits m = show_nat (nat \<bar>m\<bar> div 10 ^ trailing_zeros (nat \<bar>m\<bar>))"

definition repr_decpt :: "int \<Rightarrow> nat \<Rightarrow> int" where
  "repr_decpt m k = int (length (repr_digits m)) + int (trailing_zeros (nat \<bar>m\<bar>)) - int k"


definition float_repr :: "int \<Rightarrow> nat \<Rightarrow> string" where
  "float_repr m k =
     (if m = 0 then ''0.0''
      else
        (let ds = repr_digits m; n = int (length ds); decpt = repr_decpt m k;
             body =
               (if decpt > 16 \<or> decpt \<le> - 4
                then
                  (let e = decpt - 1; ed = show_nat (nat \<bar>e\<bar>)
                   in (if length ds = 1 then ds else take 1 ds @ ''.'' @ drop 1 ds)
                      @ ''e'' @ (if e < 0 then ''-'' else ''+'')
                      @ (if length ed < 2 then ''0'' @ ed else ed))
                else if decpt \<le> 0
                then ''0.'' @ replicate (nat (- decpt)) CHR ''0'' @ ds
                else if decpt \<ge> n
                then ds @ replicate (nat (decpt - n)) CHR ''0'' @ ''.0''
                else take (nat decpt) ds @ ''.'' @ drop (nat decpt) ds)
         in (if m < 0 then ''-'' else []) @ body))"

text \<open>\<^verbatim>\<open>astype(str)\<close>, cell by cell.\<close>

fun astype_str :: "cell \<Rightarrow> string" where
  "astype_str (Text s) = s"
| "astype_str (IntV n) = show_int n"
| "astype_str (FloatV m k) = float_repr m k"
| "astype_str NaN = ''nan''"
| "astype_str NA = ''<NA>''"
| "astype_str NoneV = ''None''"

text \<open>
  \<^verbatim>\<open>.str.replace(r"[^\d\.\-]", "", regex=True)\<close>: every character the negated class
  matches is replaced by the empty text. Below 256 the class \<^verbatim>\<open>\d\<close> is \<^verbatim>\<open>0-9\<close>.
\<close>

definition non_numeric_char :: "char \<Rightarrow> bool" where
  "non_numeric_char c = (\<not> (is_digit c \<or> c = CHR ''.'' \<or> c = CHR ''-''))"

fun str_replace :: "string \<Rightarrow> string" where
  "str_replace [] = []"
| "str_replace (c # cs) = (if non_numeric_char c then [] else [c]) @ str_replace cs"

text \<open>
  \<^verbatim>\<open>pd.to_numeric(..., errors='coerce')\<close> on one text over the alphabet that the
  replacement leaves: an optional minus sign, digits, an optional point, digits, with
  a digit somewhere; anything else does not parse. A text without a point is an integer.
\<close>

datatype parsed = PInt int | PFloat int nat | PFail

definition parse_num :: "string \<Rightarrow> parsed" where
  "parse_num s =
     (let neg = (s \<noteq> [] \<and> hd s = CHR ''-'');
          body = (if neg then tl s else s);
          sgn = (if neg then - 1 else 1);
          ip = takeWhile is_digit body;
          rest = dropWhile is_digit body
      in case rest of
           [] \<Rightarrow> if ip = [] then PFail else PInt (sgn * int (nat_of_digits ip))
         | c # fp \<Rightarrow>
             if c = CHR ''.'' \<and> list_all is_digit fp \<and> (ip \<noteq> [] \<or> fp \<noteq> [])
             then PFloat (sgn * int (nat_of_digits (ip @ fp))) (length fp)
             else PFail)"

section \<open>DataFrames\<close>

text \<open>
  A DataFrame is its columns in order, each a label with its cells, and the length of
  its index. Labels may repeat. Of pandas only the operations the script calls are
  modelled, with the behaviour pandas has on the frames this script builds.
\<close>

type_synonym column = "string \<times> cell list"

record frame =
  cols :: "column list"
  nrows :: nat

definition columns :: "frame \<Rightarrow> string list" where
  "columns df = map fst (cols df)"

definition frame_row :: "frame \<Rightarrow> nat \<Rightarrow> cell list" where
  "frame_row df i = map (\<lambda>(l, c). c ! i) (cols df)"

definition wf_frame :: "frame \<Rightarrow> bool" where
  "wf_frame df = list_all (\<lambda>(l, c). length c = nrows df) (cols df)"

text \<open>
  \<^verbatim>\<open>pd.DataFrame(rows, columns=headers)\<close> on a list of lists of text: short rows are
  padded with \<^verbatim>\<open>None\<close> to the longest, and a width other than the number of labels
  raises.
\<close>

fun columns_of :: "string list \<Rightarrow> cell list list \<Rightarrow> column list" where
  "columns_of [] rs = []"
| "columns_of (h # hs) rs = (h, map hd rs) # columns_of hs (map tl rs)"

definition DataFrame :: "string list list \<Rightarrow> string list \<Rightarrow> error + frame" where
  "DataFrame rows headers =
     (if rows = [] then Inr \<lparr>cols = map (\<lambda>h. (h, [])) headers, nrows = 0\<rparr>
      else
        (let w = fold (\<lambda>r. max (length r)) rows 0;
             padded = map (\<lambda>r. map Text r @ replicate (w - length r) NoneV) rows
         in if w \<noteq> length headers then Inl ValueError
            else Inr \<lparr>cols = columns_of headers padded, nrows = length rows\<rparr>))"

text \<open>\<^verbatim>\<open>df.drop(labels, axis=1)\<close>: a label that is no column raises; every column carrying a listed label goes.\<close>

definition drop_columns :: "frame \<Rightarrow> string list \<Rightarrow> error + frame" where
  "drop_columns df labels =
     (if \<not> list_all (\<lambda>l. l \<in> set (columns df)) labels then Inl KeyError
      else Inr (df\<lparr>cols := filter (\<lambda>(l, c). l \<notin> set labels) (cols df)\<rparr>))"

text \<open>Lines 143 to 146.\<close>

definition cols_to_remove_step :: "string list list \<Rightarrow> string list \<Rightarrow> string list \<Rightarrow> error + frame" where
  "cols_to_remove_step rows headers cols_to_remove =
     (if cols_to_remove \<noteq> []
      then (case DataFrame rows headers of
              Inl e \<Rightarrow> Inl e
            | Inr df \<Rightarrow> drop_columns df cols_to_remove)
      else DataFrame rows headers)"

text \<open>
  Line 148: the new labels are computed from the labels as they are before the
  assignment, position by position.
\<close>

definition rename_duplicates :: "string list \<Rightarrow> string list" where
  "rename_duplicates cs =
     map (\<lambda>(i, col). if count_list cs col > 1 then col @ ''_'' @ show_nat i else col)
       (enumerate 0 cs)"

definition set_columns :: "frame \<Rightarrow> string list \<Rightarrow> frame" where
  "set_columns df names = df\<lparr>cols := map2 (\<lambda>n (l, c). (n, c)) names (cols df)\<rparr>"

definition disambiguate :: "frame \<Rightarrow> frame" where
  "disambiguate df = set_columns df (rename_duplicates (columns df))"

text \<open>Lines 149 and 150: \<^verbatim>\<open>df.iloc[a:b]\<close> slices the index and every column alike.\<close>

definition iloc :: "frame \<Rightarrow> int \<Rightarrow> int \<Rightarrow> frame" where
  "iloc df a b =
     \<lparr>cols = map (\<lambda>(l, c). (l, py_slice c a b)) (cols df),
      nrows = length (py_slice [0..<nrows df] a b)\<rparr>"

definition rows_to_keep :: "frame \<Rightarrow> int \<times> int \<Rightarrow> frame" where
  "rows_to_keep df w = iloc df (fst w - 1) (snd w)"

section \<open>Step 3: numeric columns\<close>

text \<open>
  \<^verbatim>\<open>pd.to_numeric(column, errors='coerce')\<close>. Every cell is parsed; the column is an
  integer column when every cell is an integer literal that fits int64, and a float
  column otherwise, with \<open>NaN\<close> for what does not parse. (pandas also has unsigned
  columns for integers up to \<open>2^64 - 1\<close>; here such a column is a float column.)
\<close>

fun parse_cell :: "cell \<Rightarrow> parsed" where
  "parse_cell (Text s) = parse_num s"
| "parse_cell (IntV n) = PInt n"
| "parse_cell (FloatV m k) = PFloat m k"
| "parse_cell NaN = PFail"
| "parse_cell NA = PFail"
| "parse_cell NoneV = PFail"

fun fits_int64 :: "parsed \<Rightarrow> bool" where
  "fits_int64 (PInt n) = (- (2 ^ 63) \<le> n \<and> n \<le> 2 ^ 63 - 1)"
| "fits_int64 _ = False"

fun as_int :: "parsed \<Rightarrow> cell" where
  "as_int (PInt n) = IntV n"
| "as_int (PFloat m k) = FloatV m k"
| "as_int PFail = NaN"

fun as_float :: "parsed \<Rightarrow> cell" where
  "as_float (PInt n) = FloatV n 0"
| "as_float (PFloat m k) = FloatV m k"
| "as_float PFail = NaN"

definition to_numeric :: "cell list \<Rightarrow> cell list" where
  "to_numeric cs =
     (let ps = map parse_cell cs
      in if list_all fits_int64 ps then map as_int ps else map as_float ps)"

text \<open>
  \<^verbatim>\<open>cleaned_df[col]\<close> is a Series when the label occurs once. When it occurs more often
  it is a DataFrame, which has no \<^verbatim>\<open>.str\<close>: the attribute lookup raises.
\<close>

definition get_column :: "frame \<Rightarrow> string \<Rightarrow> cell list" where
  "get_column df col = (case map_of (cols df) col of Some c \<Rightarrow> c | None \<Rightarrow> [])"

definition set_column :: "frame \<Rightarrow> string \<Rightarrow> cell list \<Rightarrow> frame" where
  "set_column df col v = df\<lparr>cols := map (\<lambda>(l, c). if l = col then (l, v) else (l, c)) (cols df)\<rparr>"

text \<open>The body of the loop of \<^verbatim>\<open>clean_numeric_columns\<close>, lines 36 to 42.\<close>

definition clean_column :: "frame \<Rightarrow> string \<Rightarrow> error + frame" where
  "clean_column cleaned_df col =
     (if col \<in> set (columns cleaned_df)
      then
        (if count_list (columns cleaned_df) col > 1 then Inl AttributeError
         else
           (let df1 = set_column cleaned_df col
                        (map (\<lambda>x. Text (str_replace (astype_str x))) (get_column cleaned_df col))
            in Inr (set_column df1 col (to_numeric (get_column df1 col)))))
      else Inr cleaned_df)"

fun clean_numeric_columns :: "frame \<Rightarrow> string list \<Rightarrow> error + frame" where
  "clean_numeric_columns cleaned_df [] = Inr cleaned_df"
| "clean_numeric_columns cleaned_df (col # col_names) =
     (case clean_column cleaned_df col of
        Inl e \<Rightarrow> Inl e
      | Inr df' \<Rightarrow> clean_numeric_columns df' col_names)"

text \<open>
  The dtype of a column, read off its cells: int64, float64 (with \<open>NaN\<close>), or object
  for anything else. \<^verbatim>\<open>select_dtypes(include=['number'])\<close> keeps the first two.
\<close>

datatype dtype = Int64 | Float64 | Object

fun is_int_cell :: "cell \<Rightarrow> bool" where
  "is_int_cell (IntV n) = True"
| "is_int_cell _ = False"

fun is_float_cell :: "cell \<Rightarrow> bool" where
  "is_float_cell (FloatV m k) = True"
| "is_float_cell NaN = True"
| "is_float_cell _ = False"

definition dtype_of :: "cell list \<Rightarrow> dtype" where
  "dtype_of cs =
     (if list_all is_int_cell cs then Int64
      else if list_all is_float_cell cs then Float64
      else Object)"

text \<open>
  \<^verbatim>\<open>.round(r_err)\<close> with \<open>r_err \<ge> 0\<close> (the input's minimum): an integer column is left as
  it is; a float is scaled by \<open>10 ^ r_err\<close>, rounded to the nearest integer with ties to
  the even one, and scaled back.
\<close>

definition round_half_even_div :: "int \<Rightarrow> int \<Rightarrow> int" where
  "round_half_even_div m p =
     (let q = m div p; r = m mod p
      in if 2 * r < p then q
         else if 2 * r > p then q + 1
         else if even q then q else q + 1)"

fun round_cell :: "nat \<Rightarrow> cell \<Rightarrow> cell" where
  "round_cell d (FloatV m k) =
     (if k \<le> d then FloatV m k else FloatV (round_half_even_div m (10 ^ (k - d))) d)"
| "round_cell d x = x"

text \<open>
  Line 174, the function applied to every cell of a numeric column:
  \<^verbatim>\<open>abs(x) > 10**thresh_err\<close>, compared exactly. A negative \<open>thresh_err\<close> gives a power
  below one.
\<close>

definition exceeds :: "int \<Rightarrow> nat \<Rightarrow> int \<Rightarrow> bool" where
  "exceeds m k t =
     (if 0 \<le> t then \<bar>m\<bar> > 10 ^ (k + nat t) else \<bar>m\<bar> * 10 ^ nat (- t) > 10 ^ k)"

fun thresh_lambda :: "int \<Rightarrow> cell \<Rightarrow> cell" where
  "thresh_lambda t (IntV n) = (if exceeds n 0 t then NA else IntV n)"
| "thresh_lambda t (FloatV m k) = (if exceeds m k t then NA else FloatV m k)"
| "thresh_lambda t x = x"

text \<open>
  Lines 165 to 177. The numeric columns are taken by position: in a frame this step
  receives, a numeric column is one that \<^verbatim>\<open>clean_numeric_columns\<close> has converted, and
  its label occurs once.
\<close>

definition clean :: "frame \<Rightarrow> string list \<Rightarrow> nat \<Rightarrow> int \<Rightarrow> error + frame" where
  "clean df selected_columns r_err thresh_err =
     (if selected_columns \<noteq> []
      then (case clean_numeric_columns df selected_columns of
              Inl e \<Rightarrow> Inl e
            | Inr df2 \<Rightarrow>
                Inr (df2\<lparr>cols :=
                       map (\<lambda>(l, c).
                              if dtype_of c \<noteq> Object
                              then (l, map (thresh_lambda thresh_err) (map (round_cell r_err) c))
                              else (l, c))
                         (cols df2)\<rparr>))
      else Inr df)"

section \<open>The copy made by \<^verbatim>\<open>clean_numeric_columns\<close>\<close>

text \<open>
  \<^verbatim>\<open>clean_numeric_columns\<close> works on \<^verbatim>\<open>df.copy()\<close> and assigns columns of that copy in
  place. To see what happens to the caller's frame, frames live in a store and are
  named by their address: the copy is a new object behind the existing ones, and each
  assignment of the loop overwrites the object at the copy's address. The store that is
  returned is what the caller finds after the call, whether or not the loop raised.
\<close>

type_synonym store = "frame list"

definition copy :: "store \<Rightarrow> nat \<Rightarrow> store \<times> nat" where
  "copy st df = (st @ [st ! df], length st)"

fun clean_loop :: "store \<Rightarrow> nat \<Rightarrow> string list \<Rightarrow> store \<times> error option" where
  "clean_loop st cleaned_df [] = (st, None)"
| "clean_loop st cleaned_df (col # col_names) =
     (case clean_column (st ! cleaned_df) col of
        Inl e \<Rightarrow> (st, Some e)
      | Inr df' \<Rightarrow> clean_loop (st[cleaned_df := df']) cleaned_df col_names)"

definition clean_numeric_columns_in :: "store \<Rightarrow> nat \<Rightarrow> string list \<Rightarrow> store \<times> (error + nat)" where
  "clean_numeric_columns_in st df col_names =
     (let (st1, cleaned_df) = copy st df;
          (st2, r) = clean_loop st1 cleaned_df col_names
      in (st2, (case r of Some e \<Rightarrow> Inl e | None \<Rightarrow> Inr cleaned_df)))"

section \<open>Values and the spec's view of a cell\<close>

text \<open>
  What the loop of \<^verbatim>\<open>clean_numeric_columns\<close> makes of one column: the text of every cell,
  stripped, then converted.
\<close>

definition coerce :: "cell list \<Rightarrow> cell list" where
  "coerce c = to_numeric (map (\<lambda>x. Text (str_replace (astype_str x))) c)"

text \<open>The number a cell holds, and the number a parsed text denotes.\<close>

fun cell_value :: "cell \<Rightarrow> rat option" where
  "cell_value (IntV n) = Some (of_int n)"
| "cell_value (FloatV m k) = Some (of_int m / 10 ^ k)"
| "cell_value _ = None"

fun parsed_value :: "parsed \<Rightarrow> rat option" where
  "parsed_value (PInt n) = Some (of_int n)"
| "parsed_value (PFloat m k) = Some (of_int m / 10 ^ k)"
| "parsed_value PFail = None"







definition all_text :: "frame \<Rightarrow> bool" where
  "all_text df = list_all (\<lambda>(l, c). list_all (\<lambda>x. case x of Text s \<Rightarrow> True | _ \<Rightarrow> False) c) (cols df)"

section \<open>Header resolution\<close>

lemma py_index_in_range:
  "0 \<le> i \<Longrightarrow> i < int (length xs) \<Longrightarrow> py_index xs i = Inr (xs ! nat i)"
  by (simp add: py_index_def)

lemma split_on_nonempty: "split_on c s \<noteq> []"
  by (induction s) (auto split: list.splits)

lemma split_on_no_separator: "w \<in> set (split_on c s) \<Longrightarrow> c \<notin> set w"
  by (induction s arbitrary: w) (auto split: if_splits list.splits)

lemma split_on_join: "join [c] (split_on c s) = s"
proof (induction s)
  case Nil
  show ?case by simp
next
  case (Cons x s)
  obtain w ws where ws: "split_on c s = w # ws"
    using split_on_nonempty [of c s] by (cases "split_on c s") auto
  with Cons show ?case
    by (cases ws) auto
qed

lemma py_slice_from_in_range:
  "0 \<le> a \<Longrightarrow> py_slice_from xs a = drop (nat a) xs"
  by (cases "nat a \<le> length xs") (simp_all add: py_slice_from_def slice_bound_def min_def)

text \<open>
  C1. Row-as-header resolution with a header index \<open>h\<close> in \<open>1..|R|\<close>: a row after the
  header whose length differs from the header's makes the run stop with the shape
  warning; otherwise the header is row \<open>h - 1\<close>, the body is the rows after it, and the
  body has \<open>|R| - h\<close> rows.
\<close>

theorem use_headers_resolution:
  assumes "1 \<le> h" and "h \<le> int (length R)"
  shows "use_headers R h =
           (if \<exists>row \<in> set (drop (nat h) R). length row \<noteq> length (R ! nat (h - 1))
            then Inl ShapeMismatch
            else Inr (R ! nat (h - 1), drop (nat h) R))
         \<and> length (drop (nat h) R) = length R - nat h"
proof -
  have idx: "py_index R (h - 1) = Inr (R ! nat (h - 1))"
    using assms by (intro py_index_in_range) auto
  have sl: "py_slice_from R (h - 1 + 1) = drop (nat h) R"
    using assms by (simp add: py_slice_from_in_range)
  have "use_headers R h =
           (if \<exists>row \<in> set (drop (nat h) R). length row \<noteq> length (R ! nat (h - 1))
            then Inl ShapeMismatch
            else Inr (R ! nat (h - 1), drop (nat h) R))"
    unfolding use_headers_def Let_def idx sl
    by (auto simp: list_all_iff)
  then show ?thesis
    by simp
qed

theorem use_headers_resolution_witness:
  "use_headers [[''a'', ''b''], [''1'', ''2''], [''3'']] 1 = Inl ShapeMismatch
   \<and> use_headers [[''t''], [''a'', ''b''], [''1'', ''2'']] 2 = Inr ([''a'', ''b''], [[''1'', ''2'']])"
  using use_headers_resolution [of 1 "[[''a'', ''b''], [''1'', ''2''], [''3'']]"]
        use_headers_resolution [of 2 "[[''t''], [''a'', ''b''], [''1'', ''2'']]"]
  by simp

text \<open>
  C2 as the spec words it: success exactly when the number of comma-separated labels
  equals the length of the marked row. The field left empty is one label by
  \<^verbatim>\<open>split\<close>, the marked row here has one cell, and the run stops all the same.
\<close>

theorem custom_headers_empty_counterexample:
  "length (split_on CHR '','' []) = length ([[''x'']] ! 0)
   \<and> custom_headers [[''x'']] 1 [] = Inl MissingLabels"
  by (simp add: custom_headers_def py_index_def)

text \<open>
  C2, amended. Custom-header resolution with a first-data-row index \<open>f\<close> in \<open>1..|R|\<close>:
  an empty label text stops the run with the request for column names; a non-empty
  one succeeds exactly when its number of comma-separated labels equals the length of
  row \<open>f - 1\<close>, with the trimmed labels as header and the rows from \<open>f - 1\<close> on as body,
  and otherwise stops with a warning that reports both counts.
\<close>

theorem custom_headers_resolution:
  assumes "1 \<le> f" and "f \<le> int (length R)"
  shows "custom_headers R f L =
           (if L = [] then Inl MissingLabels
            else if length (split_on CHR '','' L) = length (R ! nat (f - 1))
            then Inr (map strip (split_on CHR '','' L), drop (nat (f - 1)) R)
            else Inl (LabelCountMismatch (length (split_on CHR '','' L)) (length (R ! nat (f - 1)))))"
proof -
  have idx: "py_index R (f - 1) = Inr (R ! nat (f - 1))"
    using assms by (intro py_index_in_range) auto
  have sl: "py_slice_from R (f - 1) = drop (nat (f - 1)) R"
    using assms by (simp add: py_slice_from_in_range)
  show ?thesis
    unfolding custom_headers_def Let_def idx sl by simp
qed

theorem custom_headers_resolution_witness:
  "custom_headers [[''t''], [''1'', ''2'']] 2 ''a , b'' = Inr ([''a'', ''b''], [[''1'', ''2'']])
   \<and> custom_headers [[''t''], [''1'', ''2'']] 2 ''a'' = Inl (LabelCountMismatch 1 2)
   \<and> custom_headers [[''t''], [''1'', ''2'']] 2 [] = Inl MissingLabels"
  using custom_headers_resolution [of 2 "[[''t''], [''1'', ''2'']]" "''a , b''"]
        custom_headers_resolution [of 2 "[[''t''], [''1'', ''2'']]" "''a''"]
        custom_headers_resolution [of 2 "[[''t''], [''1'', ''2'']]" "[]"]
  by (simp add: strip_def is_space_def)

section \<open>Selecting columns and rows\<close>

lemma relabel_fst:
  "length names = length cs \<Longrightarrow> map fst (map2 (\<lambda>n (l, c). (n, c)) names cs) = names"
  by (induction names cs rule: list_induct2) auto

lemma relabel_snd:
  "length names = length cs \<Longrightarrow> map snd (map2 (\<lambda>n (l, c). (n, c)) names cs) = map snd cs"
  by (induction names cs rule: list_induct2) auto

lemma rename_duplicates_length: "length (rename_duplicates H) = length H"
  by (simp add: rename_duplicates_def)

lemma rename_duplicates_nth:
  "i < length H \<Longrightarrow>
   rename_duplicates H ! i =
     (if 1 < count_list H (H ! i) then H ! i @ ''_'' @ show_nat i else H ! i)"
  by (simp add: rename_duplicates_def nth_enumerate_eq)

text \<open>
  C6. Duplicate-label disambiguation (line 148, run on the frame left by the drop): the
  label at position \<open>i\<close> becomes \<open>label_i\<close>, with \<open>i\<close> in decimal, when the label occurs more
  than once among the labels, the first occurrence included, and stays as it is when it
  occurs once; the cells and the number of rows are untouched. Labels \<open>A, A, B\<close> become
  \<open>A_0, A_1, B\<close> and labels \<open>A, B\<close> stay.
\<close>

theorem disambiguate_labels:
  "length (columns (disambiguate df)) = length (columns df)
   \<and> (\<forall>i < length (columns df).
         columns (disambiguate df) ! i =
           (if 1 < count_list (columns df) (columns df ! i)
            then columns df ! i @ ''_'' @ show_nat i
            else columns df ! i))
   \<and> map snd (cols (disambiguate df)) = map snd (cols df)
   \<and> nrows (disambiguate df) = nrows df
   \<and> rename_duplicates [''A'', ''A'', ''B''] = [''A_0'', ''A_1'', ''B'']
   \<and> rename_duplicates [''A'', ''B''] = [''A'', ''B'']"
proof -
  have len: "length (rename_duplicates (columns df)) = length (cols df)"
    by (simp add: rename_duplicates_length columns_def)
  have c: "columns (disambiguate df) = rename_duplicates (columns df)"
    using relabel_fst [OF len] by (simp add: disambiguate_def set_columns_def columns_def)
  have s: "map snd (cols (disambiguate df)) = map snd (cols df)"
    using relabel_snd [OF len] by (simp add: disambiguate_def set_columns_def)
  have e1: "rename_duplicates [''A'', ''A'', ''B''] = [''A_0'', ''A_1'', ''B'']"
    by (simp add: rename_duplicates_def show_nat.simps digit_char_def)
  have e2: "rename_duplicates [''A'', ''B''] = [''A'', ''B'']"
    by (simp add: rename_duplicates_def)
  show ?thesis
    unfolding c using s e1 e2
    by (simp add: rename_duplicates_length rename_duplicates_nth disambiguate_def set_columns_def)
qed

theorem disambiguate_labels_witness:
  "columns (disambiguate \<lparr>cols = [(''A'', [Text ''1'']), (''A'', [Text ''2'']), (''B'', [Text ''3''])], nrows = 1\<rparr>) ! 1 = ''A_1''
   \<and> columns (disambiguate \<lparr>cols = [(''A'', [Text ''1'']), (''A'', [Text ''2'']), (''B'', [Text ''3''])], nrows = 1\<rparr>) ! 2 = ''B''"
proof -
  let ?df = "\<lparr>cols = [(''A'', [Text ''1'']), (''A'', [Text ''2'']), (''B'', [Text ''3''])], nrows = 1\<rparr>"
  have c: "columns ?df = [''A'', ''A'', ''B'']"
    by (simp add: columns_def)
  have "\<forall>i < 3. columns (disambiguate ?df) ! i =
           (if 1 < count_list [''A'', ''A'', ''B''] ([''A'', ''A'', ''B''] ! i)
            then [''A'', ''A'', ''B''] ! i @ ''_'' @ show_nat i
            else [''A'', ''A'', ''B''] ! i)"
    using disambiguate_labels [of ?df] unfolding c by simp
  then have "columns (disambiguate ?df) ! 1 = ''A_1''" and "columns (disambiguate ?df) ! 2 = ''B''"
    by (simp_all add: show_nat.simps digit_char_def)
  then show ?thesis
    by simp
qed

lemma py_slice_in_range:
  "0 \<le> a \<Longrightarrow> a \<le> b \<Longrightarrow> b \<le> int (length xs) \<Longrightarrow>
   py_slice xs a b = drop (nat a) (take (nat b) xs)"
proof -
  assume "0 \<le> a" and "a \<le> b" and "b \<le> int (length xs)"
  then have "nat b \<le> length xs" and "nat a \<le> length xs" and "\<not> a < 0" and "\<not> b < 0"
    by linarith+
  then show ?thesis
    by (simp add: py_slice_def slice_bound_def min_def)
qed

lemma iloc_in_range:
  assumes "wf_frame df" and "0 \<le> a" and "a \<le> b" and "b \<le> int (nrows df)"
  shows "iloc df a b =
           \<lparr>cols = map (\<lambda>(l, c). (l, drop (nat a) (take (nat b) c))) (cols df),
            nrows = nat (b - a)\<rparr>"
proof -
  have "py_slice c a b = drop (nat a) (take (nat b) c)" if "(l, c) \<in> set (cols df)" for l c
  proof -
    have "length c = nrows df"
      using assms(1) that by (auto simp: wf_frame_def list_all_iff)
    then show ?thesis
      using assms by (intro py_slice_in_range) auto
  qed
  then have "map (\<lambda>(l, c). (l, py_slice c a b)) (cols df)
             = map (\<lambda>(l, c). (l, drop (nat a) (take (nat b) c))) (cols df)"
    by (intro map_cong) auto
  moreover have "length (py_slice [0..<nrows df] a b) = nat (b - a)"
    using assms by (subst py_slice_in_range) auto
  ultimately show ?thesis
    by (simp add: iloc_def)
qed

text \<open>
  C8. Row windowing (lines 149 and 150): for a window \<open>(s, e)\<close> with
  \<open>1 \<le> s \<le> e \<le> rowCount\<close> the result has \<open>e - s + 1\<close> rows, the same labels, and its row
  \<open>i\<close> is the row at 0-based position \<open>s - 1 + i\<close> of the input: exactly the rows at
  positions \<open>[s - 1, e)\<close>, in order. Ten rows and the window \<open>(3, 7)\<close> give the five rows
  that were at 1-based positions 3 to 7.
\<close>

theorem rows_to_keep_window:
  assumes "wf_frame df" and "1 \<le> s" and "s \<le> e" and "e \<le> int (nrows df)"
  shows "nrows (rows_to_keep df (s, e)) = nat (e - s + 1)
         \<and> columns (rows_to_keep df (s, e)) = columns df
         \<and> wf_frame (rows_to_keep df (s, e))
         \<and> (\<forall>i < nat (e - s + 1). frame_row (rows_to_keep df (s, e)) i = frame_row df (nat (s - 1) + i))"
proof -
  have eq: "rows_to_keep df (s, e) =
              \<lparr>cols = map (\<lambda>(l, c). (l, drop (nat (s - 1)) (take (nat e) c))) (cols df),
               nrows = nat (e - (s - 1))\<rparr>"
    using assms by (simp add: rows_to_keep_def iloc_in_range)
  have len: "length c = nrows df" if "(l, c) \<in> set (cols df)" for l c
    using assms(1) that by (auto simp: wf_frame_def list_all_iff)
  have n: "nrows (rows_to_keep df (s, e)) = nat (e - s + 1)"
    by (simp add: eq algebra_simps)
  have c: "columns (rows_to_keep df (s, e)) = columns df"
    by (simp add: eq columns_def split_def o_def)
  have w: "wf_frame (rows_to_keep df (s, e))"
    using assms len by (auto simp: eq wf_frame_def list_all_iff)
  have r: "frame_row (rows_to_keep df (s, e)) i = frame_row df (nat (s - 1) + i)"
    if "i < nat (e - s + 1)" for i
  proof -
    have "drop (nat (s - 1)) (take (nat e) c) ! i = c ! (nat (s - 1) + i)"
      if "(l, c) \<in> set (cols df)" for l c
      using len [OF that] assms \<open>i < nat (e - s + 1)\<close> by simp
    then show ?thesis
      by (auto simp: eq frame_row_def o_def split_def)
  qed
  show ?thesis
    using n c w r by blast
qed

theorem rows_to_keep_window_witness:
  "nrows (rows_to_keep \<lparr>cols = [(''n'', map IntV [1, 2, 3, 4, 5, 6, 7, 8, 9, 10])], nrows = 10\<rparr> (3, 7)) = 5
   \<and> frame_row (rows_to_keep \<lparr>cols = [(''n'', map IntV [1, 2, 3, 4, 5, 6, 7, 8, 9, 10])], nrows = 10\<rparr> (3, 7)) 0 = [IntV 3]
   \<and> frame_row (rows_to_keep \<lparr>cols = [(''n'', map IntV [1, 2, 3, 4, 5, 6, 7, 8, 9, 10])], nrows = 10\<rparr> (3, 7)) 4 = [IntV 7]"
proof -
  let ?df = "\<lparr>cols = [(''n'', map IntV [1, 2, 3, 4, 5, 6, 7, 8, 9, 10])], nrows = 10\<rparr>"
  have w: "wf_frame ?df"
    by (simp add: wf_frame_def)
  have n: "nrows (rows_to_keep ?df (3, 7)) = 5"
    using rows_to_keep_window [of ?df 3 7] w by simp
  have r: "frame_row (rows_to_keep ?df (3, 7)) i = frame_row ?df (2 + i)" if "i < 5" for i
    using rows_to_keep_window [of ?df 3 7] w that by simp
  have "frame_row (rows_to_keep ?df (3, 7)) 0 = frame_row ?df 2"
    and "frame_row (rows_to_keep ?df (3, 7)) 4 = frame_row ?df 6"
    using r [of 0] r [of 4] by simp_all
  with n show ?thesis
    by (simp add: frame_row_def)
qed

lemma columns_of_labels: "map fst (columns_of H rs) = H"
  by (induction H arbitrary: rs) auto

lemma columns_of_length: "length (columns_of H rs) = length H"
  by (induction H arbitrary: rs) auto

lemma columns_of_empty: "columns_of H [] = map (\<lambda>h. (h, [])) H"
  by (induction H) auto

lemma columns_of_cells_length: "(l, c) \<in> set (columns_of H rs) \<Longrightarrow> length c = length rs"
  by (induction H arbitrary: rs) auto

lemma columns_of_row:
  "\<forall>r \<in> set rs. length r = length H \<Longrightarrow> i < length rs \<Longrightarrow>
   map (\<lambda>(l, c). c ! i) (columns_of H rs) = rs ! i"
proof (induction H arbitrary: rs)
  case Nil
  then have "rs ! i = []"
    using nth_mem by fastforce
  then show ?case by simp
next
  case (Cons h H)
  have r: "rs ! i \<in> set rs"
    using Cons.prems by simp
  then have "length (rs ! i) = length (h # H)"
    using Cons.prems(1) by blast
  then obtain x xs where x: "rs ! i = x # xs"
    by (cases "rs ! i") auto
  have "\<forall>r \<in> set (map tl rs). length r = length H"
    using Cons.prems(1) by auto
  then have "map (\<lambda>(l, c). c ! i) (columns_of H (map tl rs)) = map tl rs ! i"
    using Cons.prems(2) by (intro Cons.IH) auto
  then show ?case
    using Cons.prems(2) x by simp
qed

lemma fold_max_width:
  "\<forall>r \<in> set rows. length r = n \<Longrightarrow> fold (\<lambda>r. max (length r)) rows (w::nat) = (if rows = [] then w else max n w)"
  by (induction rows arbitrary: w) (auto simp: max_def)

lemma DataFrame_rectangular:
  assumes "\<forall>r \<in> set rows. length r = length H"
  shows "DataFrame rows H = Inr \<lparr>cols = columns_of H (map (map Text) rows), nrows = length rows\<rparr>"
proof (cases "rows = []")
  case True
  then show ?thesis
    by (simp add: DataFrame_def columns_of_empty)
next
  case False
  have w: "fold (\<lambda>r. max (length r)) rows 0 = length H"
    using fold_max_width [OF assms, of 0] False by simp
  have pad: "map (\<lambda>r. map Text r @ replicate (length H - length r) NoneV) rows = map (map Text) rows"
    using assms by (intro map_cong) auto
  show ?thesis
    unfolding DataFrame_def Let_def w pad using False by simp
qed

lemma filter_labels: "map fst (filter (\<lambda>(l, c). P l) cs) = filter P (map fst cs)"
  by (induction cs) auto

lemma filter_row_nths:
  assumes "map (\<lambda>(l, c). c ! i) cs = r"
  shows "map (\<lambda>(l, c). c ! i) (filter (\<lambda>(l, c). P l) cs)
         = nths r {j. j < length cs \<and> P (map fst cs ! j)}"
proof -
  have "{j. j < length cs \<and> (case cs ! j of (l, c) \<Rightarrow> P l)} = {j. j < length cs \<and> P (map fst cs ! j)}"
    by (auto simp: split_def)
  then show ?thesis
    unfolding assms [symmetric] filter_eq_nths nths_map by simp
qed

text \<open>
  Outside the options of the multiselect, \<^verbatim>\<open>drop\<close> raises: a listed label that is no
  column is a \<^verbatim>\<open>KeyError\<close>.
\<close>

lemma drop_columns_unknown_label:
  "l \<in> set D \<Longrightarrow> l \<notin> set (columns df) \<Longrightarrow> drop_columns df D = Inl KeyError"
  by (auto simp: drop_columns_def list_all_iff)

text \<open>
  C7. Column dropping (lines 143 to 146), for rows that all have as many cells as there
  are labels \<open>H\<close> and labels \<open>D\<close> picked among \<open>H\<close> (the options of the multiselect): the
  result has the labels of \<open>H\<close> that are not in \<open>D\<close>, in their order, the same number of
  rows, and each row keeps the cells at the positions whose label is not in \<open>D\<close>; with
  \<open>D\<close> empty the labels and the rows are as given.
\<close>

theorem cols_to_remove_step_drops:
  assumes "\<forall>r \<in> set rows. length r = length H" and "set D \<subseteq> set H"
  shows "\<exists>df. cols_to_remove_step rows H D = Inr df
           \<and> columns df = filter (\<lambda>h. h \<notin> set D) H
           \<and> nrows df = length rows
           \<and> wf_frame df
           \<and> (\<forall>i < length rows.
                 frame_row df i = map Text (nths (rows ! i) {j. j < length H \<and> H ! j \<notin> set D}))
           \<and> (D = [] \<longrightarrow> columns df = H \<and> (\<forall>i < length rows. frame_row df i = map Text (rows ! i)))"
proof -
  let ?base = "\<lparr>cols = columns_of H (map (map Text) rows), nrows = length rows\<rparr>"
  let ?res = "?base\<lparr>cols := filter (\<lambda>(l, c). l \<notin> set D) (cols ?base)\<rparr>"
  have mk: "DataFrame rows H = Inr ?base"
    using assms(1) by (rule DataFrame_rectangular)
  have c0: "columns ?base = H"
    by (simp add: columns_def columns_of_labels)
  have dr: "drop_columns ?base D = Inr ?res"
    using assms(2) unfolding drop_columns_def c0 by (auto simp: list_all_iff)
  have same: "D = [] \<Longrightarrow> ?res = ?base"
    by simp
  have res: "cols_to_remove_step rows H D = Inr ?res"
  proof (cases "D = []")
    case True
    then show ?thesis
      using mk by (simp add: cols_to_remove_step_def)
  next
    case False
    then show ?thesis
      using mk dr by (simp add: cols_to_remove_step_def)
  qed
  have labels: "columns ?res = filter (\<lambda>h. h \<notin> set D) H"
    by (simp add: columns_def filter_labels columns_of_labels)
  have wf: "wf_frame ?res"
    by (auto simp: wf_frame_def list_all_iff dest: columns_of_cells_length)
  have rect: "\<forall>r \<in> set (map (map Text) rows). length r = length H"
    using assms(1) by simp
  have row: "frame_row ?res i = map Text (nths (rows ! i) {j. j < length H \<and> H ! j \<notin> set D})"
    if "i < length rows" for i
  proof -
    have "map (\<lambda>(l, c). c ! i) (columns_of H (map (map Text) rows)) = map Text (rows ! i)"
      using columns_of_row [OF rect, of i] that by simp
    from filter_row_nths [OF this, of "\<lambda>l. l \<notin> set D"] show ?thesis
      by (simp add: frame_row_def columns_of_labels columns_of_length nths_map)
  qed
  have row0: "frame_row ?res i = map Text (rows ! i)" if "i < length rows" and "D = []" for i
  proof -
    have "length (rows ! i) = length H"
      using assms(1) that by simp
    then have "{j. j < length H \<and> H ! j \<notin> set D} = {..<length (rows ! i)}"
      using that by auto
    then show ?thesis
      using row [OF that(1)] by simp
  qed
  have "D = [] \<Longrightarrow> columns ?res = H"
    using labels by simp
  with res labels wf row row0 show ?thesis
    by (intro exI [of _ ?res]) simp
qed

theorem cols_to_remove_step_drops_witness:
  "cols_to_remove_step [[''1'', ''2'', ''3''], [''4'', ''5'', ''6'']] [''A'', ''B'', ''A''] [''A'']
     = Inr \<lparr>cols = [(''B'', [Text ''2'', Text ''5''])], nrows = 2\<rparr>
   \<and> (\<exists>df. cols_to_remove_step [[''1'', ''2'', ''3''], [''4'', ''5'', ''6'']] [''A'', ''B'', ''A''] [''A''] = Inr df
          \<and> columns df = [''B''] \<and> frame_row df 1 = [Text ''5''])"
proof -
  let ?rows = "[[''1'', ''2'', ''3''], [''4'', ''5'', ''6'']]"
  let ?H = "[''A'', ''B'', ''A'']"
  have s: "{j. j < 3 \<and> ?H ! j \<noteq> ''A''} = {1::nat}"
    by (auto simp: nth_Cons' split: if_splits)
  have "\<forall>r \<in> set ?rows. length r = length ?H" and "set [''A''] \<subseteq> set ?H"
    by simp_all
  from cols_to_remove_step_drops [OF this] obtain df where
    df: "cols_to_remove_step ?rows ?H [''A''] = Inr df"
      "columns df = filter (\<lambda>h. h \<notin> set [''A'']) ?H"
      "\<forall>i < length ?rows. frame_row df i = map Text (nths (?rows ! i) {j. j < length ?H \<and> ?H ! j \<notin> set [''A'']})"
    by blast
  have "frame_row df 1 = map Text (nths (?rows ! 1) {j. j < length ?H \<and> ?H ! j \<notin> set [''A'']})"
    using df(3) by simp
  then have "frame_row df 1 = [Text ''5'']"
    using s by (simp add: nths_Cons)
  moreover have "columns df = [''B'']"
    using df(2) by simp
  moreover have "cols_to_remove_step ?rows ?H [''A''] = Inr \<lparr>cols = [(''B'', [Text ''2'', Text ''5''])], nrows = 2\<rparr>"
    by (simp add: cols_to_remove_step_def DataFrame_def drop_columns_def columns_def)
  ultimately show ?thesis
    using df(1) by auto
qed

section \<open>Numeric cleaning, column by column\<close>

lemma map_of_unique:
  "count_list (map fst cs) col \<le> 1 \<Longrightarrow> (col, c) \<in> set cs \<Longrightarrow> map_of cs col = Some c"
proof (induction cs)
  case Nil
  then show ?case by simp
next
  case (Cons p cs)
  show ?case
  proof (cases "fst p = col")
    case True
    then have "count_list (map fst cs) col = 0"
      using Cons.prems(1) by simp
    then have "col \<notin> fst ` set cs"
      by (simp add: count_list_0_iff)
    then have "(col, c) \<notin> set cs"
      by force
    then show ?thesis
      using Cons.prems(2) True by (cases p) auto
  next
    case False
    then show ?thesis
      using Cons by (cases p) auto
  qed
qed

lemma get_column_unique:
  "count_list (columns df) col \<le> 1 \<Longrightarrow> (col, c) \<in> set (cols df) \<Longrightarrow> get_column df col = c"
  by (simp add: get_column_def columns_def map_of_unique)

lemma columns_set_column: "columns (set_column df col v) = columns df"
  by (simp add: set_column_def columns_def o_def split_def if_distrib cong: if_cong)

lemma set_column_member:
  "col \<in> set (columns df) \<Longrightarrow> (col, v) \<in> set (cols (set_column df col v))"
  by (force simp: set_column_def columns_def)

lemma set_column_twice:
  "set_column (set_column df col v) col w = set_column df col w"
  by (simp add: set_column_def o_def split_def if_distrib cong: if_cong)

lemma clean_column_absent: "col \<notin> set (columns df) \<Longrightarrow> clean_column df col = Inr df"
  by (simp add: clean_column_def)


lemma clean_column_once:
  assumes "col \<in> set (columns df)" and "count_list (columns df) col \<le> 1"
  shows "clean_column df col =
           Inr (df\<lparr>cols := map (\<lambda>(l, c). if l = col then (l, coerce c) else (l, c)) (cols df)\<rparr>)"
proof -
  let ?t = "map (\<lambda>x. Text (str_replace (astype_str x))) (get_column df col)"
  let ?d = "set_column df col ?t"
  have "count_list (columns ?d) col \<le> 1"
    using assms(2) by (simp add: columns_set_column)
  moreover have "(col, ?t) \<in> set (cols ?d)"
    using assms(1) by (rule set_column_member)
  ultimately have g: "get_column ?d col = ?t"
    by (rule get_column_unique)
  have "clean_column df col = Inr (set_column df col (coerce (get_column df col)))"
    using assms by (simp add: clean_column_def Let_def g set_column_twice coerce_def)
  moreover have "map (\<lambda>(l, c). if l = col then (l, coerce (get_column df col)) else (l, c)) (cols df)
                 = map (\<lambda>(l, c). if l = col then (l, coerce c) else (l, c)) (cols df)"
    using get_column_unique [OF assms(2)] by (intro map_cong) auto
  ultimately show ?thesis
    by (simp add: set_column_def)
qed

lemma clean_column_frame:
  assumes "clean_column df col = Inr df'"
  shows "columns df' = columns df" and "nrows df' = nrows df"
    and "j < length (cols df) \<Longrightarrow> columns df ! j \<noteq> col \<Longrightarrow> cols df' ! j = cols df ! j"
proof -
  have eq: "df' = df \<or> (\<exists>v. df' = set_column df col v)"
    using assms by (auto simp: clean_column_def Let_def set_column_twice split: if_splits)
  show "columns df' = columns df"
    using eq by (auto simp: columns_set_column)
  show "nrows df' = nrows df"
    using eq by (auto simp: set_column_def)
  show "cols df' ! j = cols df ! j" if "j < length (cols df)" and "columns df ! j \<noteq> col"
    using eq that by (auto simp: set_column_def columns_def split_def)
qed

lemma clean_numeric_columns_frame:
  assumes "clean_numeric_columns df names = Inr df'"
  shows "columns df' = columns df \<and> nrows df' = nrows df
         \<and> (\<forall>j < length (cols df). columns df ! j \<notin> set names \<longrightarrow> cols df' ! j = cols df ! j)"
  using assms
proof (induction names arbitrary: df)
  case Nil
  then show ?case by simp
next
  case (Cons col names)
  from Cons.prems obtain d where d: "clean_column df col = Inr d"
    and rest: "clean_numeric_columns d names = Inr df'"
    by (auto split: sum.splits)
  note f = clean_column_frame [OF d]
  have len: "length (cols d) = length (cols df)"
    using f(1) by (metis columns_def length_map)
  from Cons.IH [OF rest] f len show ?case
    by auto
qed

lemma clean_numeric_columns_skip:
  "clean_numeric_columns df names = clean_numeric_columns df (filter (\<lambda>c. c \<in> set (columns df)) names)"
proof (induction names arbitrary: df)
  case Nil
  show ?case by simp
next
  case (Cons col names)
  show ?case
  proof (cases "col \<in> set (columns df)")
    case False
    then show ?thesis
      using Cons.IH [of df] by (simp add: clean_column_absent)
  next
    case True
    show ?thesis
    proof (cases "clean_column df col")
      case (Inl e)
      then show ?thesis using True by simp
    next
      case (Inr d)
      then have "columns d = columns df"
        by (rule clean_column_frame)
      then show ?thesis
        using True Inr Cons.IH [of d] by simp
    qed
  qed
qed

lemma clean_numeric_columns_distinct:
  assumes "distinct names" and "\<forall>n \<in> set names. count_list (columns df) n \<le> 1"
  shows "clean_numeric_columns df names =
           Inr (df\<lparr>cols := map (\<lambda>(l, c). if l \<in> set names then (l, coerce c) else (l, c)) (cols df)\<rparr>)"
  using assms
proof (induction names arbitrary: df)
  case Nil
  then show ?case by simp
next
  case (Cons col names)
  let ?d = "df\<lparr>cols := map (\<lambda>(l, c). if l = col then (l, coerce c) else (l, c)) (cols df)\<rparr>"
  have step: "clean_column df col = Inr ?d"
  proof (cases "col \<in> set (columns df)")
    case True
    then show ?thesis
      using Cons.prems(2) by (simp add: clean_column_once)
  next
    case False
    then have "map (\<lambda>(l, c). if l = col then (l, coerce c) else (l, c)) (cols df) = cols df"
      by (intro map_idI) (force simp: columns_def)
    then show ?thesis
      using False by (simp add: clean_column_absent)
  qed
  have c: "columns ?d = columns df"
    by (simp add: columns_def o_def split_def if_distrib cong: if_cong)
  have "clean_numeric_columns ?d names =
          Inr (?d\<lparr>cols := map (\<lambda>(l, c). if l \<in> set names then (l, coerce c) else (l, c)) (cols ?d)\<rparr>)"
    using Cons.prems by (intro Cons.IH) (auto simp: c)
  moreover have "map (\<lambda>(l, c). if l \<in> set names then (l, coerce c) else (l, c)) (cols ?d)
                 = map (\<lambda>(l, c). if l \<in> set (col # names) then (l, coerce c) else (l, c)) (cols df)"
    using Cons.prems(1) by (auto simp: split_def)
  ultimately show ?case
    using step by simp
qed

lemma clean_numeric_columns_succeeds:
  "\<forall>n \<in> set names. count_list (columns df) n \<le> 1 \<Longrightarrow> \<exists>df'. clean_numeric_columns df names = Inr df'"
proof (induction names arbitrary: df)
  case Nil
  show ?case by simp
next
  case (Cons col names)
  have "\<exists>d. clean_column df col = Inr d"
  proof (cases "col \<in> set (columns df)")
    case True
    then show ?thesis
      using Cons.prems by (simp add: clean_column_once)
  next
    case False
    then show ?thesis
      by (simp add: clean_column_absent)
  qed
  then obtain d where d: "clean_column df col = Inr d"
    by blast
  then have "columns d = columns df"
    by (rule clean_column_frame)
  then have "\<exists>df'. clean_numeric_columns d names = Inr df'"
    using Cons.prems by (intro Cons.IH) simp
  then show ?case
    using d by simp
qed

lemma clean_loop_store:
  assumes "a < length st"
  shows "length (fst (clean_loop st a names)) = length st
         \<and> (\<forall>b. b \<noteq> a \<longrightarrow> fst (clean_loop st a names) ! b = st ! b)
         \<and> (case clean_numeric_columns (st ! a) names of
               Inl e \<Rightarrow> snd (clean_loop st a names) = Some e
             | Inr d \<Rightarrow> snd (clean_loop st a names) = None \<and> fst (clean_loop st a names) ! a = d)"
  using assms
proof (induction names arbitrary: st)
  case Nil
  then show ?case by simp
next
  case (Cons col names)
  show ?case
  proof (cases "clean_column (st ! a) col")
    case (Inl e)
    then show ?thesis by simp
  next
    case (Inr d)
    have "a < length (st[a := d])"
      using Cons.prems by simp
    from Cons.IH [OF this] show ?thesis
      using Inr Cons.prems by (auto split: sum.splits)
  qed
qed

text \<open>
  Line 148 does not make the labels distinct: a generated label can meet a label that
  was there. With the labels \<open>A_1, A, A\<close> the result is \<open>A_1, A_1, A_2\<close>, and step 3 with
  every column designated then raises at the repeated label.
\<close>

lemma repeated_label_after_disambiguate:
  "columns (disambiguate \<lparr>cols = [(''A_1'', [Text ''1'']), (''A'', [Text ''2'']), (''A'', [Text ''3''])], nrows = 1\<rparr>)
     = [''A_1'', ''A_1'', ''A_2'']
   \<and> clean (disambiguate \<lparr>cols = [(''A_1'', [Text ''1'']), (''A'', [Text ''2'']), (''A'', [Text ''3''])], nrows = 1\<rparr>)
         [''A_1'', ''A_1'', ''A_2''] 0 16
       = Inl AttributeError"
  by (simp add: disambiguate_def set_columns_def rename_duplicates_def columns_def
      show_nat.simps digit_char_def clean_def clean_column_def)

text \<open>
  C9. Frame property of numeric cleaning. Whenever \<^verbatim>\<open>clean_numeric_columns\<close> returns, the
  result has the labels and the row count of the input, and every column whose label is
  not designated is the input's column, cell for cell. It returns whenever no designated
  label occurs twice among the labels. The whole of step 3 likewise leaves every column
  of text that is not designated as it was.
\<close>

theorem clean_numeric_columns_frame_property:
  "(\<forall>df'. clean_numeric_columns df names = Inr df' \<longrightarrow>
       columns df' = columns df \<and> nrows df' = nrows df
       \<and> (\<forall>j < length (cols df). columns df ! j \<notin> set names \<longrightarrow> cols df' ! j = cols df ! j))
   \<and> ((\<forall>n \<in> set names. count_list (columns df) n \<le> 1) \<longrightarrow>
        (\<exists>df'. clean_numeric_columns df names = Inr df'))
   \<and> (\<forall>df2. clean df names r_err thresh_err = Inr df2 \<longrightarrow>
         columns df2 = columns df \<and> nrows df2 = nrows df
         \<and> (\<forall>j < length (cols df).
               columns df ! j \<notin> set names \<longrightarrow> dtype_of (snd (cols df ! j)) = Object \<longrightarrow>
               cols df2 ! j = cols df ! j))"
proof (intro conjI)
  show "\<forall>df'. clean_numeric_columns df names = Inr df' \<longrightarrow>
       columns df' = columns df \<and> nrows df' = nrows df
       \<and> (\<forall>j < length (cols df). columns df ! j \<notin> set names \<longrightarrow> cols df' ! j = cols df ! j)"
    using clean_numeric_columns_frame by blast
  show "(\<forall>n \<in> set names. count_list (columns df) n \<le> 1) \<longrightarrow>
        (\<exists>df'. clean_numeric_columns df names = Inr df')"
    using clean_numeric_columns_succeeds by blast
  show "\<forall>df2. clean df names r_err thresh_err = Inr df2 \<longrightarrow>
         columns df2 = columns df \<and> nrows df2 = nrows df
         \<and> (\<forall>j < length (cols df).
               columns df ! j \<notin> set names \<longrightarrow> dtype_of (snd (cols df ! j)) = Object \<longrightarrow>
               cols df2 ! j = cols df ! j)"
  proof (intro allI impI)
  fix df2
  assume c: "clean df names r_err thresh_err = Inr df2"
  let ?f = "\<lambda>(l, c). if dtype_of c \<noteq> Object
                      then (l, map (thresh_lambda thresh_err) (map (round_cell r_err) c))
                      else (l, c)"
  show "columns df2 = columns df \<and> nrows df2 = nrows df
        \<and> (\<forall>j < length (cols df).
              columns df ! j \<notin> set names \<longrightarrow> dtype_of (snd (cols df ! j)) = Object \<longrightarrow>
              cols df2 ! j = cols df ! j)"
  proof (cases "names = []")
    case True
    then have "df2 = df"
      using c by (simp add: clean_def)
    then show ?thesis
      by simp
  next
    case False
    then obtain d where d: "clean_numeric_columns df names = Inr d"
      using c by (cases "clean_numeric_columns df names") (simp_all add: clean_def)
    then have df2: "df2 = d\<lparr>cols := map ?f (cols d)\<rparr>"
      using c False by (simp add: clean_def)
    note fr = clean_numeric_columns_frame [OF d]
    have lab: "map fst (map ?f (cols d)) = map fst (cols d)"
      by (simp add: o_def split_def if_distrib cong: if_cong)
    have len: "length (cols d) = length (cols df)"
      using fr by (metis columns_def length_map)
    have c1: "columns df2 = columns df"
      unfolding df2 using fr lab by (simp add: columns_def)
    have c2: "nrows df2 = nrows df"
      unfolding df2 using fr by simp
    have c3: "cols df2 ! j = cols df ! j"
      if "j < length (cols df)" and "columns df ! j \<notin> set names" and "dtype_of (snd (cols df ! j)) = Object"
      for j
    proof -
      have "cols d ! j = cols df ! j"
        using fr that by simp
      then have "map ?f (cols d) ! j = cols df ! j"
        using that len by (simp add: split_def)
      then show ?thesis
        by (simp add: df2)
    qed
    from c1 c2 c3 show ?thesis
      by blast
  qed
  qed
qed

theorem clean_numeric_columns_frame_property_witness:
  "\<exists>df'. clean_numeric_columns \<lparr>cols = [(''v'', [Text ''7'']), (''w'', [Text ''a''])], nrows = 1\<rparr> [''v''] = Inr df'
     \<and> columns df' = [''v'', ''w'']
     \<and> cols df' ! 1 = (''w'', [Text ''a''])"
proof -
  let ?df = "\<lparr>cols = [(''v'', [Text ''7'']), (''w'', [Text ''a''])], nrows = 1\<rparr>"
  note t = clean_numeric_columns_frame_property [of ?df "[''v'']" 0 16]
  have "\<forall>n \<in> set [''v'']. count_list (columns ?df) n \<le> 1"
    by (simp add: columns_def)
  with t obtain df' where r: "clean_numeric_columns ?df [''v''] = Inr df'"
    by blast
  with t have "columns df' = columns ?df"
    and "\<forall>j < length (cols ?df). columns ?df ! j \<notin> set [''v''] \<longrightarrow> cols df' ! j = cols ?df ! j"
    by blast+
  then have "columns df' = [''v'', ''w'']" and "cols df' ! 1 = (''w'', [Text ''a''])"
    by (simp_all add: columns_def)
  with r show ?thesis
    by blast
qed

text \<open>
  C10. A designated name that is no label of the frame is skipped: the call behaves as
  the call with the present names only, it returns the frame itself when none of the
  names is present, and what it returns has the labels of the input. In the store, the
  call allocates the copy behind the existing objects and leaves each of these, the
  caller's frame among them, as it was, whether it returns or raises; what it returns is
  the address of the copy, holding the cleaned frame.
\<close>

theorem clean_numeric_columns_absent_names:
  "clean_numeric_columns df names = clean_numeric_columns df (filter (\<lambda>c. c \<in> set (columns df)) names)
   \<and> (set names \<inter> set (columns df) = {} \<longrightarrow> clean_numeric_columns df names = Inr df)
   \<and> (\<forall>df'. clean_numeric_columns df names = Inr df' \<longrightarrow> columns df' = columns df)
   \<and> (a < length st \<longrightarrow>
        take (length st) (fst (clean_numeric_columns_in st a names)) = st
        \<and> (case clean_numeric_columns (st ! a) names of
              Inl e \<Rightarrow> snd (clean_numeric_columns_in st a names) = Inl e
            | Inr d \<Rightarrow> snd (clean_numeric_columns_in st a names) = Inr (length st)
                       \<and> fst (clean_numeric_columns_in st a names) ! length st = d))"
proof (intro conjI allI impI)
  show s: "clean_numeric_columns df names = clean_numeric_columns df (filter (\<lambda>c. c \<in> set (columns df)) names)"
    by (rule clean_numeric_columns_skip)
  show "clean_numeric_columns df names = Inr df" if "set names \<inter> set (columns df) = {}"
  proof -
    have "filter (\<lambda>c. c \<in> set (columns df)) names = []"
      using that by (auto simp: filter_empty_conv)
    with s show ?thesis by simp
  qed
  show "columns df' = columns df" if "clean_numeric_columns df names = Inr df'" for df'
    using clean_numeric_columns_frame [OF that] by simp
next
  assume a: "a < length st"
  let ?st1 = "st @ [st ! a]"
  let ?r = "clean_loop ?st1 (length st) names"
  have call: "clean_numeric_columns_in st a names
              = (fst ?r, (case snd ?r of Some e \<Rightarrow> Inl e | None \<Rightarrow> Inr (length st)))"
    by (simp add: clean_numeric_columns_in_def copy_def split_def Let_def split: option.splits)
  have "length st < length ?st1"
    by simp
  note l = clean_loop_store [OF this, of names]
  have len: "length (fst ?r) = Suc (length st)"
    using l by simp
  have "fst ?r ! b = st ! b" if "b < length st" for b
    using l that by (simp add: nth_append)
  then have "take (length st) (fst ?r) = st"
    using len by (intro nth_equalityI) simp_all
  then show "take (length st) (fst (clean_numeric_columns_in st a names)) = st"
    by (simp add: call)
  show "case clean_numeric_columns (st ! a) names of
          Inl e \<Rightarrow> snd (clean_numeric_columns_in st a names) = Inl e
        | Inr d \<Rightarrow> snd (clean_numeric_columns_in st a names) = Inr (length st)
                   \<and> fst (clean_numeric_columns_in st a names) ! length st = d"
    using l by (simp add: call split: sum.splits)
qed

theorem clean_numeric_columns_absent_names_witness:
  "clean_numeric_columns \<lparr>cols = [(''v'', [Text ''7''])], nrows = 1\<rparr> [''zz''] = Inr \<lparr>cols = [(''v'', [Text ''7''])], nrows = 1\<rparr>
   \<and> take 1 (fst (clean_numeric_columns_in [\<lparr>cols = [(''v'', [Text ''7''])], nrows = 1\<rparr>] 0 [''v'', ''zz'']))
       = [\<lparr>cols = [(''v'', [Text ''7''])], nrows = 1\<rparr>]"
proof -
  let ?df = "\<lparr>cols = [(''v'', [Text ''7''])], nrows = 1\<rparr>"
  have "set [''zz''] \<inter> set (columns ?df) = {}"
    by (simp add: columns_def)
  then have "clean_numeric_columns ?df [''zz''] = Inr ?df"
    using clean_numeric_columns_absent_names [of ?df "[''zz'']" 0 "[]"] by blast
  moreover have "take (length [?df]) (fst (clean_numeric_columns_in [?df] 0 [''v'', ''zz''])) = [?df]"
    using clean_numeric_columns_absent_names [of ?df "[''v'', ''zz'']" 0 "[?df]"] by simp
  ultimately show ?thesis
    by simp
qed

section \<open>Numbers: parsing, rounding, the threshold\<close>

lemma str_replace_filter: "str_replace s = filter (\<lambda>c. \<not> non_numeric_char c) s"
  by (induction s) auto






lemma to_numeric_length: "length (to_numeric cs) = length cs"
  by (simp add: to_numeric_def Let_def)

lemma coerce_length: "length (coerce c) = length c"
  by (simp add: coerce_def to_numeric_length)

lemma to_numeric_nth:
  "i < length cs \<Longrightarrow>
   to_numeric cs ! i = as_int (parse_cell (cs ! i)) \<or> to_numeric cs ! i = as_float (parse_cell (cs ! i))"
  by (simp add: to_numeric_def Let_def)

lemma to_numeric_dtype: "dtype_of (to_numeric cs) \<noteq> Object"
proof (cases "list_all fits_int64 (map parse_cell cs)")
  case True
  have "is_int_cell (as_int p)" if "fits_int64 p" for p
    using that by (cases p) auto
  then have "list_all is_int_cell (map as_int (map parse_cell cs))"
    using True by (auto simp: list_all_iff)
  then show ?thesis
    using True by (simp add: to_numeric_def dtype_of_def)
next
  case False
  have "is_float_cell (as_float p)" for p
    by (cases p) auto
  then have "list_all is_float_cell (map as_float (map parse_cell cs))"
    by (auto simp: list_all_iff)
  then show ?thesis
    using False by (simp add: to_numeric_def dtype_of_def)
qed

lemma coerce_nth:
  assumes "i < length c" and "c ! i = Text s"
  shows "coerce c ! i = as_int (parse_num (str_replace s)) \<or> coerce c ! i = as_float (parse_num (str_replace s))"
proof -
  let ?t = "map (\<lambda>x. Text (str_replace (astype_str x))) c"
  have "i < length ?t" and "parse_cell (?t ! i) = parse_num (str_replace s)"
    using assms by simp_all
  then show ?thesis
    using to_numeric_nth [of i ?t] by (simp add: coerce_def)
qed

lemma as_cell_value:
  "cell_value (as_int p) = parsed_value p" "cell_value (as_float p) = parsed_value p"
  by (cases p; simp)+

lemma as_cell_fail:
  "as_int p = NaN \<longleftrightarrow> p = PFail" "as_float p = NaN \<longleftrightarrow> p = PFail"
  by (cases p; simp)+



lemma clean_designated:
  assumes "distinct names" and "\<forall>n \<in> set names. count_list (columns df) n \<le> 1"
    and "j < length (cols df)" and "cols df ! j = (col, c)" and "col \<in> set names"
  shows "\<exists>df1 df2. clean_numeric_columns df names = Inr df1 \<and> cols df1 ! j = (col, coerce c)
           \<and> clean df names d t = Inr df2
           \<and> cols df2 ! j = (col, map (thresh_lambda t) (map (round_cell d) (coerce c)))"
proof -
  let ?F = "\<lambda>(l, c). if l \<in> set names then (l, coerce c) else (l, c)"
  let ?G = "\<lambda>(l, c). if dtype_of c \<noteq> Object
                      then (l, map (thresh_lambda t) (map (round_cell d) c))
                      else (l, c)"
  let ?mid = "df\<lparr>cols := map ?F (cols df)\<rparr>"
  have one: "clean_numeric_columns df names = Inr ?mid"
    using assms(1,2) by (rule clean_numeric_columns_distinct)
  have ne: "names \<noteq> []"
    using assms(5) by auto
  have two: "clean df names d t = Inr (?mid\<lparr>cols := map ?G (cols ?mid)\<rparr>)"
    using one ne by (simp add: clean_def)
  have f: "map ?F (cols df) ! j = (col, coerce c)"
    using assms(3,4,5) by simp
  have "cols ?mid ! j = (col, coerce c)"
    using f by simp
  moreover have "map ?G (map ?F (cols df)) ! j = ?G (map ?F (cols df) ! j)"
    using assms(3) by simp
  then have "cols (?mid\<lparr>cols := map ?G (cols ?mid)\<rparr>) ! j
             = (col, map (thresh_lambda t) (map (round_cell d) (coerce c)))"
    unfolding f using to_numeric_dtype [of "map (\<lambda>x. Text (str_replace (astype_str x))) c"]
    by (simp add: coerce_def)
  ultimately show ?thesis
    using one two by blast
qed

lemmas eval_defs =
  clean_def clean_column_def columns_def get_column_def set_column_def to_numeric_def
  parse_num_def is_digit_def nat_of_digits_def digit_val_def non_numeric_char_def dtype_of_def
  round_half_even_div_def exceeds_def Let_def

lemma ex_na: "clean_numeric_columns \<lparr>cols = [(''v'', [Text ''N/A''])], nrows = 1\<rparr> [''v'']
              = Inr \<lparr>cols = [(''v'', [NaN])], nrows = 1\<rparr>"
  by (simp add: eval_defs)




text \<open>
  C3. Numeric cleaning of one cell. Let the designated names be distinct and none of
  them label two columns, and let \<open>col\<close> be a designated label, with text \<open>s\<close> in its row
  \<open>i\<close>. Then \<^verbatim>\<open>clean_numeric_columns\<close> returns; the column keeps its place and its length;
  the text that is parsed is \<open>s\<close> without the characters other than digits, \<open>.\<close> and \<open>-\<close>;
  and the cell becomes \<open>NaN\<close> when that text does not parse and a number of the
  parsed value when it does. The text \<open>N/A\<close> strips to the empty text and becomes \<open>NaN\<close>.
\<close>

theorem numeric_cleaning_cell:
  assumes "distinct names" and "\<forall>n \<in> set names. count_list (columns df) n \<le> 1"
    and "j < length (cols df)" and "cols df ! j = (col, c)" and "col \<in> set names"
    and "i < length c" and "c ! i = Text s"
  shows "\<exists>df' c'. clean_numeric_columns df names = Inr df' \<and> cols df' ! j = (col, c')
           \<and> length c' = length c
           \<and> (parse_num (filter (\<lambda>ch. is_digit ch \<or> ch = CHR ''.'' \<or> ch = CHR ''-'') s) = PFail
                \<longrightarrow> c' ! i = NaN)
           \<and> cell_value (c' ! i)
               = parsed_value (parse_num (filter (\<lambda>ch. is_digit ch \<or> ch = CHR ''.'' \<or> ch = CHR ''-'') s))
           \<and> str_replace ''N/A'' = []
           \<and> clean_numeric_columns \<lparr>cols = [(''v'', [Text ''N/A''])], nrows = 1\<rparr> [''v'']
               = Inr \<lparr>cols = [(''v'', [NaN])], nrows = 1\<rparr>"
proof -
  let ?t = "filter (\<lambda>ch. is_digit ch \<or> ch = CHR ''.'' \<or> ch = CHR ''-'') s"
  have t: "str_replace s = ?t"
    by (simp add: str_replace_filter non_numeric_char_def)
  from clean_designated [OF assms(1-5)] obtain df' where
    r: "clean_numeric_columns df names = Inr df'" and c: "cols df' ! j = (col, coerce c)"
    by blast
  have n: "coerce c ! i = as_int (parse_num ?t) \<or> coerce c ! i = as_float (parse_num ?t)"
    using coerce_nth [OF assms(6,7)] by (simp add: t)
  then have f: "parse_num ?t = PFail \<longrightarrow> coerce c ! i = NaN"
    by auto
  have v: "cell_value (coerce c ! i) = parsed_value (parse_num ?t)"
    using n by (auto simp: as_cell_value)
  have e: "str_replace ''N/A'' = []"
    by (simp add: non_numeric_char_def is_digit_def)
  show ?thesis
    using r c f v e ex_na coerce_length [of c] by blast
qed

theorem numeric_cleaning_cell_witness:
  "\<exists>df' c'. clean_numeric_columns \<lparr>cols = [(''v'', [Text ''12'', Text ''n/a''])], nrows = 2\<rparr> [''v''] = Inr df'
     \<and> cols df' ! 0 = (''v'', c') \<and> length c' = 2 \<and> c' ! 1 = NaN \<and> cell_value (c' ! 0) = Some 12"
proof -
  let ?df = "\<lparr>cols = [(''v'', [Text ''12'', Text ''n/a''])], nrows = 2\<rparr>"
  let ?c = "[Text ''12'', Text ''n/a'']"
  have h: "distinct [''v'']" "\<forall>n \<in> set [''v'']. count_list (columns ?df) n \<le> 1"
    "0 < length (cols ?df)" "cols ?df ! 0 = (''v'', ?c)" "''v'' \<in> set [''v'']"
    by (simp_all add: columns_def)
  have p1: "parse_num (filter (\<lambda>ch. is_digit ch \<or> ch = CHR ''.'' \<or> ch = CHR ''-'') ''n/a'') = PFail"
    by (simp add: parse_num_def is_digit_def)
  have p0: "parsed_value (parse_num (filter (\<lambda>ch. is_digit ch \<or> ch = CHR ''.'' \<or> ch = CHR ''-'') ''12'')) = Some 12"
    by (simp add: parse_num_def is_digit_def nat_of_digits_def digit_val_def)
  have i1: "1 < length ?c" "?c ! 1 = Text ''n/a''" and i0: "0 < length ?c" "?c ! 0 = Text ''12''"
    by simp_all
  from numeric_cleaning_cell [OF h i1, unfolded p1]
  obtain df' c' where a: "clean_numeric_columns ?df [''v''] = Inr df'" "cols df' ! 0 = (''v'', c')"
    "length c' = length ?c" "c' ! 1 = NaN"
    by auto
  from numeric_cleaning_cell [OF h i0, unfolded p0]
  obtain df'' c'' where b: "clean_numeric_columns ?df [''v''] = Inr df''" "cols df'' ! 0 = (''v'', c'')"
    "cell_value (c'' ! 0) = Some 12"
    by auto
  from a b have "c'' = c'"
    by simp
  with a b show ?thesis
    by auto
qed




section \<open>Printing a number and reading it back\<close>
























section \<open>Cleaning a cleaned frame\<close>



















end
